theory Spec2Isabelle
  imports Main "HOL-Library.Word" "HOL-Library.Monad_Syntax"
begin

section \<open>The Celestron AUX protocol of celestron\_aux.h and celestron\_aux.cpp\<close>

text \<open>
  A shallow embedding of the classes \<open>Packet\<close> and \<open>Communicator\<close> of the namespace
  \<open>CelestronAux\<close>.

  \<^item> A \<open>Buffer\<close> (\<open>std::vector<uint8_t>\<close>) is a list of bytes.
  \<^item> Indexing a vector outside its bounds is undefined behaviour in C++. Every function
    that indexes a vector returns an \<open>option\<close>, and \<open>None\<close> stands for an access
    outside the bounds, so that \<open>Some\<close> says that every access of the run was inside.
  \<^item> The diagnostic output (\<open>Serial.printf\<close>) is left out, except that the four failure
    messages of \<open>Packet::parse\<close> are kept apart in its result.
\<close>

subsection \<open>Types and constants (celestron\_aux.h)\<close>

type_synonym Buffer = "8 word list"

definition AUX_HDR :: "8 word" where
  "AUX_HDR = 0x3B"

text \<open>
  \<open>Command\<close> and \<open>Target\<close> are unscoped C++ enumerations. Their largest enumerators
  (\<open>0xfe\<close> and \<open>0xbf\<close>) need eight bits, so the values of either type are exactly
  \<open>0..255\<close>: \<open>static_cast<uint8_t>\<close> loses nothing and \<open>static_cast<Target>\<close>
  of any byte is a value of the type, an enumerator or not. Both are bytes here, and the
  enumerators are named constants.
\<close>

type_synonym Command = "8 word"

definition MC_GET_POSITION :: Command where "MC_GET_POSITION = 0x01"
definition MC_GOTO_FAST :: Command where "MC_GOTO_FAST = 0x02"
definition MC_SET_POSITION :: Command where "MC_SET_POSITION = 0x04"
definition MC_SET_POS_GUIDERATE :: Command where "MC_SET_POS_GUIDERATE = 0x06"
definition MC_SET_NEG_GUIDERATE :: Command where "MC_SET_NEG_GUIDERATE = 0x07"
definition MC_LEVEL_START :: Command where "MC_LEVEL_START = 0x0b"
definition MC_SET_POS_BACKLASH :: Command where "MC_SET_POS_BACKLASH = 0x10"
definition MC_SET_NEG_BACKLASH :: Command where "MC_SET_NEG_BACKLASH = 0x11"
definition MC_SLEW_DONE :: Command where "MC_SLEW_DONE = 0x13"
definition MC_GOTO_SLOW :: Command where "MC_GOTO_SLOW = 0x17"
definition MC_SEEK_INDEX :: Command where "MC_SEEK_INDEX = 0x19"
definition MC_MOVE_POS :: Command where "MC_MOVE_POS = 0x24"
definition MC_MOVE_NEG :: Command where "MC_MOVE_NEG = 0x25"
definition MC_GET_POS_BACKLASH :: Command where "MC_GET_POS_BACKLASH = 0x40"
definition MC_GET_NEG_BACKLASH :: Command where "MC_GET_NEG_BACKLASH = 0x41"
definition GET_VER :: Command where "GET_VER = 0xfe"
definition FOC_CALIB_ENABLE :: Command where "FOC_CALIB_ENABLE = 42"
definition FOC_CALIB_DONE :: Command where "FOC_CALIB_DONE = 43"
definition FOC_GET_HS_POSITIONS :: Command where "FOC_GET_HS_POSITIONS = 44"

definition Commands :: "Command list" where
  "Commands = [MC_GET_POSITION, MC_GOTO_FAST, MC_SET_POSITION, MC_SET_POS_GUIDERATE,
     MC_SET_NEG_GUIDERATE, MC_LEVEL_START, MC_SET_POS_BACKLASH, MC_SET_NEG_BACKLASH,
     MC_SLEW_DONE, MC_GOTO_SLOW, MC_SEEK_INDEX, MC_MOVE_POS, MC_MOVE_NEG,
     MC_GET_POS_BACKLASH, MC_GET_NEG_BACKLASH, GET_VER, FOC_CALIB_ENABLE, FOC_CALIB_DONE,
     FOC_GET_HS_POSITIONS]"

type_synonym Target = "8 word"

definition ANY :: Target where "ANY = 0x00"
definition MB :: Target where "MB = 0x01"
definition HC :: Target where "HC = 0x04"
definition HCP :: Target where "HCP = 0x0d"
definition AZM :: Target where "AZM = 0x10"
definition ALT :: Target where "ALT = 0x11"
definition FOCUSER :: Target where "FOCUSER = 0x12"
definition APP :: Target where "APP = 0x20"
definition NEX_REMOTE :: Target where "NEX_REMOTE = 0x22"
definition GPS :: Target where "GPS = 0xb0"
definition WiFi :: Target where "WiFi = 0xb5"
definition BAT :: Target where "BAT = 0xb6"
definition CHG :: Target where "CHG = 0xb7"
definition LIGHT :: Target where "LIGHT = 0xbf"

definition Targets :: "Target list" where
  "Targets = [ANY, MB, HC, HCP, AZM, ALT, FOCUSER, APP, NEX_REMOTE, GPS, WiFi, BAT, CHG,
     LIGHT]"

text \<open>
  The fields of a \<open>Packet\<close>. \<open>length\<close> is a \<open>uint32_t\<close>; it is named \<open>length_p\<close>
  here, \<open>length\<close> being the length of a list.
\<close>

record Packet =
  length_p :: "32 word"
  source :: Target
  destination :: Target
  command :: Command
  data :: Buffer

subsection \<open>Vectors\<close>

text \<open>\<open>v[i]\<close> read and written: \<open>None\<close> outside the bounds.\<close>

definition at :: "Buffer \<Rightarrow> nat \<Rightarrow> 8 word option" where
  "at v i = (if i < length v then Some (v ! i) else None)"

definition put :: "Buffer \<Rightarrow> nat \<Rightarrow> 8 word \<Rightarrow> Buffer option" where
  "put v i x = (if i < length v then Some (v[i := x]) else None)"

text \<open>\<open>v.back() = x\<close>: the last element, which an empty vector does not have.\<close>

definition put_back :: "Buffer \<Rightarrow> 8 word \<Rightarrow> Buffer option" where
  "put_back v x = (if v = [] then None else Some (v[length v - 1 := x]))"

text \<open>\<open>v.resize(n)\<close> keeps the first \<open>n\<close> elements and fills up with zeros.\<close>

definition resize :: "Buffer \<Rightarrow> nat \<Rightarrow> Buffer" where
  "resize v n = take n v @ replicate (n - length v) 0"

subsection \<open>Packet\<close>

text \<open>The three constructors. \<open>data.size() + 3\<close> is stored in a \<open>uint32_t\<close>.\<close>

definition Packet_default :: Packet where
  "Packet_default =
     \<lparr>length_p = 0, source = APP, destination = FOCUSER, command = GET_VER, data = []\<rparr>"

definition Packet_data :: "Target \<Rightarrow> Target \<Rightarrow> Command \<Rightarrow> Buffer \<Rightarrow> Packet" where
  "Packet_data src dst cmd dat =
     \<lparr>length_p = of_nat (length dat + 3), source = src, destination = dst, command = cmd,
      data = dat\<rparr>"

definition Packet_nodata :: "Target \<Rightarrow> Target \<Rightarrow> Command \<Rightarrow> Packet" where
  "Packet_nodata src dst cmd =
     \<lparr>length_p = 3, source = src, destination = dst, command = cmd, data = []\<rparr>"

text \<open>
  \<open>Packet::calculateChecksum\<close>: the loop \<open>for (int i = 1; i < packet[1] + 2; i++)\<close>,
  which reads \<open>packet[1]\<close> at every test; the \<open>int\<close> variable \<open>sum\<close> is the
  accumulator \<open>sm\<close>. The sum stays below \<open>256 * 255\<close>, so the \<open>int\<close> does not overflow.
\<close>

function checksum_loop :: "Buffer \<Rightarrow> nat \<Rightarrow> int \<Rightarrow> int option" where
  "checksum_loop packet i sm =
     (case at packet 1 of
        None \<Rightarrow> None
      | Some n \<Rightarrow>
          if i < unat n + 2 then
            (case at packet i of
               None \<Rightarrow> None
             | Some b \<Rightarrow> checksum_loop packet (i + 1) (sm + uint b))
          else Some sm)"
  by pat_completeness auto
termination
proof (relation "measure (\<lambda>(packet, i, sm). 257 - i)")
  show "wf (measure (\<lambda>(packet :: Buffer, i :: nat, sm :: int). 257 - i))"
    by simp
next
  fix packet :: Buffer and i :: nat and sm :: int and n b :: "8 word"
  assume "i < unat n + 2"
  moreover have "unat n < 256"
    using unsigned_less [of n, where 'a = nat] by simp
  ultimately show "((packet, i + 1, sm + uint b), (packet, i, sm))
      \<in> measure (\<lambda>(packet, i, sm). 257 - i)"
    by simp
qed

text \<open>\<open>return (-sum & 0xFF)\<close>, converted to \<open>uint8_t\<close>.\<close>

definition calculateChecksum :: "Buffer \<Rightarrow> 8 word option" where
  "calculateChecksum packet = map_option (\<lambda>sm. word_of_int (- sm)) (checksum_loop packet 1 0)"

text \<open>The loop of \<open>fillBuffer\<close> that copies the data: \<open>buf[5 + i] = data[i]\<close>.\<close>

function copy_data :: "Buffer \<Rightarrow> nat \<Rightarrow> Buffer \<Rightarrow> Buffer option" where
  "copy_data dat i buf =
     (if i < length dat then
        (case put buf (5 + i) (dat ! i) of
           None \<Rightarrow> None
         | Some buf' \<Rightarrow> copy_data dat (i + 1) buf')
      else Some buf)"
  by pat_completeness auto
termination
  by (relation "measure (\<lambda>(dat, i, buf). length dat - i)") auto

text \<open>
  \<open>Packet::fillBuffer\<close>. The second argument is the buffer that the caller passes by
  reference, the result is its new content. \<open>length + 3\<close> is computed in \<open>uint32_t\<close>,
  and \<open>buf[1] = length\<close> keeps the low eight bits.
\<close>

definition fillBuffer :: "Packet \<Rightarrow> Buffer \<Rightarrow> Buffer option" where
  "fillBuffer p buf0 = do {
     let buf = resize buf0 (unat (length_p p + 3));
     buf \<leftarrow> put buf 0 AUX_HDR;
     buf \<leftarrow> put buf 1 (ucast (length_p p));
     buf \<leftarrow> put buf 2 (source p);
     buf \<leftarrow> put buf 3 (destination p);
     buf \<leftarrow> put buf 4 (command p);
     buf \<leftarrow> copy_data (data p) 0 buf;
     c \<leftarrow> calculateChecksum buf;
     put_back buf c
   }"

text \<open>
  \<open>Packet::parse\<close> returns \<open>false\<close> at four places, each with its own message; the
  result keeps them apart, and \<open>Parsed\<close> is \<open>true\<close>. The first argument is the object
  the method is called on, and the result holds its fields after the call.
\<close>

datatype parse_result = Parsed | TooSmall | InvalidHeader | SizeMismatch | ChecksumMismatch

definition parse :: "Packet \<Rightarrow> Buffer \<Rightarrow> (parse_result \<times> Packet) option" where
  "parse p packet =
     (if length packet < 6 then Some (TooSmall, p)
      else do {
        h \<leftarrow> at packet 0;
        if h \<noteq> AUX_HDR then Some (InvalidHeader, p)
        else do {
          l \<leftarrow> at packet 1;
          let p = p\<lparr>length_p := ucast l\<rparr>;
          if length packet \<noteq> unat (length_p p + 3) then Some (SizeMismatch, p)
          else do {
            s \<leftarrow> at packet 2;
            d \<leftarrow> at packet 3;
            c \<leftarrow> at packet 4;
            let p = p\<lparr>source := s, destination := d, command := c,
                      data := butlast (drop 5 packet)\<rparr>;
            calculatedChecksum \<leftarrow> calculateChecksum packet;
            receivedChecksum \<leftarrow> at packet (unat (length_p p + 2));
            if calculatedChecksum \<noteq> receivedChecksum then Some (ChecksumMismatch, p)
            else Some (Parsed, p)
          }
        }
      })"

subsection \<open>The serial port and the clock\<close>

text \<open>
  \<open>HardwareSerial\<close>, \<open>millis\<close> and \<open>delay\<close> belong to the Arduino core, not to this
  repository. The code needs them as a byte channel and a clock, and this is the model of
  them that the communicator runs against. What the device answers is not computed from
  what is written: every way the line can behave is one choice of \<open>rx\<close> and \<open>wr\<close>.

  \<^item> \<open>clock\<close> is the time in milliseconds. Only \<open>delay\<close> lets time pass: \<open>delay(1)\<close>
    takes one millisecond and every other statement takes none.
  \<^item> \<open>rx\<close> holds the bytes that the port has not delivered yet, in their order on the
    line, each with the time at which it arrives. A byte can be read once its time has
    come.
  \<^item> \<open>tx\<close> holds the bytes taken by each call of \<open>write\<close>, oldest first.
  \<^item> \<open>wr\<close> says how many bytes each of the coming calls of \<open>write\<close> takes at most;
    when it is empty a call takes all of them.
\<close>

record World =
  clock :: nat
  rx :: "(nat \<times> 8 word) list"
  tx :: "Buffer list"
  wr :: "nat list"

text \<open>\<open>millis()\<close> is an \<open>unsigned long\<close> of 32 bits and wraps around.\<close>

definition millis :: "World \<Rightarrow> 32 word" where
  "millis w = of_nat (clock w)"

definition delay :: "nat \<Rightarrow> World \<Rightarrow> World" where
  "delay ms w = w\<lparr>clock := clock w + ms\<rparr>"

text \<open>\<open>serial.available()\<close>, which the code only tests for being non-zero.\<close>

definition available :: "World \<Rightarrow> bool" where
  "available w = (case rx w of [] \<Rightarrow> False | (t, b) # rest \<Rightarrow> t \<le> clock w)"

text \<open>
  \<open>serial.read()\<close> stored in a \<open>uint8_t\<close>: the next byte; \<open>-1\<close>, that is \<open>0xFF\<close>,
  when there is none.
\<close>

definition serial_read :: "World \<Rightarrow> 8 word \<times> World" where
  "serial_read w =
     (case rx w of
        [] \<Rightarrow> (0xFF, w)
      | (t, b) # rest \<Rightarrow> if t \<le> clock w then (b, w\<lparr>rx := rest\<rparr>) else (0xFF, w))"

text \<open>\<open>serial.write(buf, size)\<close> returns the number of bytes it has taken.\<close>

definition serial_write :: "World \<Rightarrow> Buffer \<Rightarrow> nat \<times> World" where
  "serial_write w buf =
     (let n = (case wr w of [] \<Rightarrow> length buf | k # ks \<Rightarrow> min k (length buf))
      in (n, w\<lparr>tx := tx w @ [take n buf], wr := tl (wr w)\<rparr>))"

text \<open>\<open>serial.flush()\<close> waits until the output has been sent.\<close>

definition serial_flush :: "World \<Rightarrow> World" where
  "serial_flush w = w"

subsection \<open>Communicator\<close>

text \<open>
  The only field of a \<open>Communicator\<close> is \<open>source\<close>, named \<open>comm_source\<close> here
  (\<open>source\<close> is the field of \<open>Packet\<close>).
\<close>

record Communicator =
  comm_source :: Target

definition Communicator_default :: Communicator where
  "Communicator_default = \<lparr>comm_source = APP\<rparr>"

definition Communicator_source :: "Target \<Rightarrow> Communicator" where
  "Communicator_source src = \<lparr>comm_source = src\<rparr>"

definition TIMEOUT_MS :: "32 word" where
  "TIMEOUT_MS = 2000"

definition RETRY_COUNT :: nat where
  "RETRY_COUNT = 3"

text \<open>\<open>Communicator::flushSerial\<close>: \<open>while (serial.available()) serial.read();\<close>\<close>

function flushSerial :: "World \<Rightarrow> World" where
  "flushSerial w = (if available w then flushSerial (snd (serial_read w)) else w)"
  by pat_completeness auto
termination
proof (relation "measure (\<lambda>w. length (rx w))")
  show "wf (measure (\<lambda>w :: World. length (rx w)))"
    by simp
next
  fix w :: World
  assume "available w"
  then show "(snd (serial_read w), w) \<in> measure (\<lambda>w. length (rx w))"
    by (auto simp add: available_def serial_read_def split: list.splits)
qed

text \<open>
  \<open>Communicator::sendPacket\<close>. \<open>txBuffer\<close> is empty when \<open>fillBuffer\<close> is called.
\<close>

definition sendPacket ::
  "Communicator \<Rightarrow> World \<Rightarrow> Target \<Rightarrow> Command \<Rightarrow> Buffer \<Rightarrow> (bool \<times> World) option" where
  "sendPacket c w dest cmd dat = do {
     txBuffer \<leftarrow> fillBuffer (Packet_data (comm_source c) dest cmd dat) [];
     let w = flushSerial w;
     let (bytesWritten, w) = serial_write w txBuffer;
     if bytesWritten \<noteq> length txBuffer then Some (False, w)
     else Some (True, serial_flush w)
   }"

text \<open>
  The first loop of \<open>Communicator::readPacket\<close>:
  \<^verbatim>\<open>while (millis() - startTime < 100) {
    if (serial.available()) { rawData.push_back(serial.read()); startTime = millis(); }
    delay(1);
  }\<close>
  The difference is taken in \<open>unsigned long\<close>. It returns the port and the bytes collected.
\<close>

function collect :: "World \<Rightarrow> 32 word \<Rightarrow> Buffer \<Rightarrow> World \<times> Buffer" where
  "collect w startTime rawData =
     (if millis w - startTime < 100 then
        (if available w then
           (case serial_read w of
              (b, w') \<Rightarrow> collect (delay 1 w') (millis w') (rawData @ [b]))
         else collect (delay 1 w) startTime rawData)
      else (w, rawData))"
  by pat_completeness auto
termination
proof (relation "measures [\<lambda>(w, startTime, rawData). length (rx w),
    \<lambda>(w, startTime, rawData). 100 - unat (millis w - startTime)]")
  show "wf (measures [\<lambda>(w :: World, startTime :: 32 word, rawData :: Buffer). length (rx w),
    \<lambda>(w, startTime, rawData). 100 - unat (millis w - startTime)])"
    by simp
next
  fix w w' :: World and startTime :: "32 word" and rawData :: Buffer and b :: "8 word"
  assume "millis w - startTime < 100" and "available w" and "(b, w') = serial_read w"
  then have "length (rx w') < length (rx w)"
    by (auto simp add: available_def serial_read_def split: list.splits)
  then show "((delay 1 w', millis w', rawData @ [b]), (w, startTime, rawData))
    \<in> measures [\<lambda>(w, startTime, rawData). length (rx w),
      \<lambda>(w, startTime, rawData). 100 - unat (millis w - startTime)]"
    by (simp add: delay_def)
next
  fix w :: World and startTime :: "32 word" and rawData :: Buffer
  assume less: "millis w - startTime < 100" and "\<not> available w"
  have step: "millis (delay 1 w) - startTime = (millis w - startTime) + 1"
    by (simp add: millis_def delay_def)
  have below: "unat (millis w - startTime) < 100"
    using less by (simp add: word_less_nat_alt)
  then have "unat ((millis w - startTime) + 1) = unat (millis w - startTime) + 1"
    by (simp add: unat_word_ariths)
  then have "unat (millis (delay 1 w) - startTime) = unat (millis w - startTime) + 1"
    by (simp only: step)
  moreover have "rx (delay 1 w) = rx w"
    by (simp add: delay_def)
  ultimately show "((delay 1 w, startTime, rawData), (w, startTime, rawData))
    \<in> measures [\<lambda>(w, startTime, rawData). length (rx w),
      \<lambda>(w, startTime, rawData). 100 - unat (millis w - startTime)]"
    using below by simp
qed

text \<open>
  The second part of \<open>readPacket\<close> builds the packet from the bytes collected: they are
  taken as they are when the first is the header, and else follow a header that is added.
\<close>

function push_all :: "Buffer \<Rightarrow> nat \<Rightarrow> Buffer \<Rightarrow> Buffer" where
  "push_all rawData i packet =
     (if i < length rawData then push_all rawData (i + 1) (packet @ [rawData ! i])
      else packet)"
  by pat_completeness auto
termination
  by (relation "measure (\<lambda>(rawData, i, packet). length rawData - i)") auto

definition build_packet :: "Buffer \<Rightarrow> Buffer option" where
  "build_packet rawData = do {
     first \<leftarrow> at rawData 0;
     if first = AUX_HDR then Some rawData
     else Some (push_all rawData 0 [AUX_HDR])
   }"

text \<open>
  \<open>readPacket\<close> after its first loop, from \<open>if (rawData.empty())\<close> to the end: the
  result is the value returned and the fields of \<open>reply\<close>.
\<close>

definition finalize :: "Buffer \<Rightarrow> Packet \<Rightarrow> (bool \<times> Packet) option" where
  "finalize rawData reply =
     (if rawData = [] then Some (False, reply)
      else do {
        packet \<leftarrow> build_packet rawData;
        len \<leftarrow> at packet 1;
        let expectedSize = unat len + 3;
        if length packet \<noteq> expectedSize then Some (False, reply)
        else do {
          (r, reply) \<leftarrow> parse reply packet;
          Some (r = Parsed, reply)
        }
      })"

definition readPacket :: "World \<Rightarrow> Packet \<Rightarrow> (bool \<times> Packet \<times> World) option" where
  "readPacket w reply =
     (let (w, rawData) = collect w (millis w) []
      in do {
        (ok, reply) \<leftarrow> finalize rawData reply;
        Some (ok, reply, w)
      })"

text \<open>
  One pass through the body of the loop of \<open>Communicator::sendCommand\<close>, with the place
  where it leaves the body: one of the three \<open>continue\<close> statements, or the end with the
  data of the response.
\<close>

datatype attempt_result = SendFailed | ReadFailed | InvalidResponse | Success Buffer

definition attempt ::
  "Communicator \<Rightarrow> World \<Rightarrow> Target \<Rightarrow> Command \<Rightarrow> Buffer
    \<Rightarrow> (attempt_result \<times> World) option" where
  "attempt c w dest cmd dat = do {
     (sent, w) \<leftarrow> sendPacket c w dest cmd dat;
     if \<not> sent then Some (SendFailed, w)
     else do {
       (ok, responsePacket, w) \<leftarrow> readPacket w Packet_default;
       if \<not> ok then Some (ReadFailed, w)
       else if command responsePacket \<noteq> cmd \<or> destination responsePacket \<noteq> APP
           \<or> source responsePacket \<noteq> dest
         then Some (InvalidResponse, w)
       else Some (Success (data responsePacket), w)
     }
   }"

text \<open>
  \<open>Communicator::sendCommand\<close>: \<open>while (retryCount++ < RETRY_COUNT)\<close>, where the
  counter starts at 0, is tested and then incremented. The counter is an \<open>int\<close> and the
  constant a \<open>uint32_t\<close>; the counter stays between 0 and 4, so both are natural numbers
  here. The result is the value returned, the content of \<open>reply\<close>, which is only
  assigned on success, and the port.
\<close>

function sendCommand_loop ::
  "Communicator \<Rightarrow> World \<Rightarrow> Target \<Rightarrow> Command \<Rightarrow> Buffer \<Rightarrow> Buffer \<Rightarrow> nat
    \<Rightarrow> (bool \<times> Buffer \<times> World) option" where
  "sendCommand_loop c w dest cmd dat reply retryCount =
     (if retryCount < RETRY_COUNT then
        (case attempt c w dest cmd dat of
           None \<Rightarrow> None
         | Some (Success d, w') \<Rightarrow> Some (True, d, w')
         | Some (SendFailed, w') \<Rightarrow> sendCommand_loop c w' dest cmd dat reply (retryCount + 1)
         | Some (ReadFailed, w') \<Rightarrow> sendCommand_loop c w' dest cmd dat reply (retryCount + 1)
         | Some (InvalidResponse, w') \<Rightarrow>
             sendCommand_loop c w' dest cmd dat reply (retryCount + 1))
      else Some (False, reply, w))"
  by pat_completeness auto
termination
  by (relation "measure (\<lambda>(c, w, dest, cmd, dat, reply, retryCount). RETRY_COUNT - retryCount)")
    auto

definition sendCommand ::
  "Communicator \<Rightarrow> World \<Rightarrow> Target \<Rightarrow> Command \<Rightarrow> Buffer \<Rightarrow> Buffer
    \<Rightarrow> (bool \<times> Buffer \<times> World) option" where
  "sendCommand c w dest cmd dat reply = sendCommand_loop c w dest cmd dat reply 0"

text \<open>The overload without data, and \<open>commandBlind\<close>.\<close>

definition sendCommand_nodata ::
  "Communicator \<Rightarrow> World \<Rightarrow> Target \<Rightarrow> Command \<Rightarrow> Buffer \<Rightarrow> (bool \<times> Buffer \<times> World) option" where
  "sendCommand_nodata c w dest cmd reply = sendCommand c w dest cmd [] reply"

definition commandBlind ::
  "Communicator \<Rightarrow> World \<Rightarrow> Target \<Rightarrow> Command \<Rightarrow> Buffer \<Rightarrow> (bool \<times> World) option" where
  "commandBlind c w dest cmd dat = sendPacket c w dest cmd dat"

subsection \<open>The wire format, for the statements\<close>

text \<open>
  The checksum of a frame as the comment in \<open>calculateChecksum\<close> describes it: the sum of
  the bytes \<open>1\<close> to \<open>packet[1] + 1\<close>, negated, in eight bits.
\<close>

definition checksum_spec :: "Buffer \<Rightarrow> 8 word" where
  "checksum_spec packet = - sum_list (take (unat (packet ! 1) + 1) (drop 1 packet))"

text \<open>
  The frame of a packet: header, length byte, source, destination, command, data and
  checksum. The length byte holds the low eight bits of \<open>data.size() + 3\<close>.
\<close>

definition frame_body :: "Target \<Rightarrow> Target \<Rightarrow> Command \<Rightarrow> Buffer \<Rightarrow> Buffer" where
  "frame_body src dst cmd dat = [AUX_HDR, of_nat (length dat + 3), src, dst, cmd] @ dat"

definition wire_frame :: "Target \<Rightarrow> Target \<Rightarrow> Command \<Rightarrow> Buffer \<Rightarrow> Buffer" where
  "wire_frame src dst cmd dat =
     frame_body src dst cmd dat @ [checksum_spec (frame_body src dst cmd dat)]"

text \<open>The fields that \<open>parse\<close> reads from a buffer.\<close>

definition parsed_fields :: "Buffer \<Rightarrow> Packet" where
  "parsed_fields packet =
     \<lparr>length_p = ucast (packet ! 1), source = packet ! 2, destination = packet ! 3,
      command = packet ! 4, data = butlast (drop 5 packet)\<rparr>"

text \<open>No byte can be read from the port before the time \<open>T\<close>.\<close>

definition quiet_until :: "World \<Rightarrow> nat \<Rightarrow> bool" where
  "quiet_until w T = (case rx w of [] \<Rightarrow> True | (t, b) # rest \<Rightarrow> T \<le> t)"

text \<open>
  The recursive equations of the loops are unfolded by hand in the proofs, one turn at a
  time.
\<close>

declare checksum_loop.simps [simp del]
declare copy_data.simps [simp del]
declare flushSerial.simps [simp del]
declare collect.simps [simp del]
declare push_all.simps [simp del]
declare sendCommand_loop.simps [simp del]

section \<open>Properties\<close>

subsection \<open>The checksum\<close>

lemma word_of_int_sum_uint: "word_of_int (sum_list (map uint bs)) = (sum_list bs :: 8 word)"
  by (induction bs) simp_all

lemma checksum_loop_closed:
  assumes "1 < length packet" and "unat (packet ! 1) + 2 \<le> length packet"
    and "i \<le> unat (packet ! 1) + 2"
  shows "checksum_loop packet i sm
    = Some (sm + sum_list (map uint (take (unat (packet ! 1) + 2 - i) (drop i packet))))"
  using assms
proof (induction packet i sm rule: checksum_loop.induct)
  case (1 packet i sm)
  have a1: "at packet 1 = Some (packet ! 1)"
    using "1.prems"(1) by (simp add: at_def)
  show ?case
  proof (cases "i < unat (packet ! 1) + 2")
    case True
    then have il: "i < length packet"
      using "1.prems"(2) by simp
    then have ai: "at packet i = Some (packet ! i)"
      by (simp add: at_def)
    have ih: "checksum_loop packet (i + 1) (sm + uint (packet ! i))
      = Some (sm + uint (packet ! i)
          + sum_list (map uint (take (unat (packet ! 1) + 2 - (i + 1)) (drop (i + 1) packet))))"
      using "1.IH" [OF a1 True ai] "1.prems"(1,2) True by simp
    have split: "take (unat (packet ! 1) + 2 - i) (drop i packet)
      = packet ! i # take (unat (packet ! 1) + 2 - (i + 1)) (drop (i + 1) packet)"
    proof -
      have "unat (packet ! 1) + 2 - i = Suc (unat (packet ! 1) + 2 - (i + 1))"
        using True by simp
      moreover have "drop i packet = packet ! i # drop (i + 1) packet"
        using il by (simp add: Cons_nth_drop_Suc)
      ultimately show ?thesis by simp
    qed
    have "checksum_loop packet i sm = checksum_loop packet (i + 1) (sm + uint (packet ! i))"
      by (subst checksum_loop.simps) (simp only: a1 ai option.case True if_True)
    then show ?thesis
      by (simp only: ih split) simp
  next
    case False
    then have "unat (packet ! 1) + 2 - i = 0"
      by simp
    moreover have "checksum_loop packet i sm = Some sm"
      by (subst checksum_loop.simps) (simp only: a1 option.case False if_False)
    ultimately show ?thesis
      by simp
  qed
qed

lemma calculateChecksum_closed:
  assumes "unat (packet ! 1) + 2 \<le> length packet"
  shows "calculateChecksum packet = Some (checksum_spec packet)"
proof -
  have "1 < length packet"
    using assms by simp
  then have "checksum_loop packet 1 0
    = Some (sum_list (map uint (take (unat (packet ! 1) + 1) (drop 1 packet))))"
    using checksum_loop_closed [of packet 1 0] assms by simp
  then show ?thesis
    by (simp add: calculateChecksum_def checksum_spec_def word_of_int_sum_uint)
qed

lemma calculateChecksum_None:
  "length packet < 2 \<Longrightarrow> calculateChecksum packet = None"
  by (subst calculateChecksum_def, subst checksum_loop.simps) (simp add: at_def)

subsection \<open>Closed form of \<open>parse\<close>\<close>

lemma unat_ucast_plus:
  "unat (ucast (l :: 8 word) + (3 :: 32 word)) = unat l + 3"
  "unat (ucast (l :: 8 word) + (2 :: 32 word)) = unat l + 2"
proof -
  have "unat l < 256"
    using unsigned_less [of l, where 'a = nat] by simp
  then show "unat (ucast l + (3 :: 32 word)) = unat l + 3"
    and "unat (ucast l + (2 :: 32 word)) = unat l + 2"
    by (simp_all add: unat_word_ariths unsigned_ucast_eq take_bit_nat_eq_self)
qed

lemma at_Some: "i < length v \<Longrightarrow> at v i = Some (v ! i)"
  by (simp add: at_def)


lemma parse_closed:
  "parse p packet = Some
     (if length packet < 6 then (TooSmall, p)
      else if packet ! 0 \<noteq> AUX_HDR then (InvalidHeader, p)
      else if length packet \<noteq> unat (packet ! 1) + 3
        then (SizeMismatch, p\<lparr>length_p := ucast (packet ! 1)\<rparr>)
      else if checksum_spec packet \<noteq> packet ! (length packet - 1)
        then (ChecksumMismatch, parsed_fields packet)
      else (Parsed, parsed_fields packet))"
proof (cases "length packet < 6")
  case True
  then show ?thesis by (simp add: parse_def)
next
  case False
  then have "packet \<noteq> []"
    by auto
  with False have at_small: "at packet 0 = Some (packet ! 0)"
    "at packet (Suc 0) = Some (packet ! Suc 0)" "at packet 2 = Some (packet ! 2)"
    "at packet 3 = Some (packet ! 3)" "at packet 4 = Some (packet ! 4)"
    by (simp_all add: at_def)
  show ?thesis
  proof (cases "packet ! 0 \<noteq> AUX_HDR \<or> length packet \<noteq> unat (packet ! 1) + 3")
    case True
    then show ?thesis
      using False by (auto simp add: parse_def at_small unat_ucast_plus Let_def)
  next
    case ok: False
    then have size: "length packet = unat (packet ! 1) + 3"
      by simp
    then have cs: "calculateChecksum packet = Some (checksum_spec packet)"
      by (simp add: calculateChecksum_closed)
    have tail: "at packet (unat (packet ! 1) + 2) = Some (packet ! (length packet - 1))"
      using size by (simp add: at_def)
    show ?thesis
      using False ok
      by (cases p) (simp add: parse_def at_small unat_ucast_plus Let_def cs parsed_fields_def at_def)
  qed
qed

subsection \<open>Closed form of \<open>fillBuffer\<close>\<close>

lemma copy_data_closed:
  assumes "5 + length dat \<le> length buf" and "i \<le> length dat"
  shows "copy_data dat i buf
    = Some (take (5 + i) buf @ drop i dat @ drop (5 + length dat) buf)"
  using assms
proof (induction dat i buf rule: copy_data.induct)
  case (1 dat i buf)
  show ?case
  proof (cases "i < length dat")
    case True
    define buf' where "buf' = buf[5 + i := dat ! i]"
    have p: "put buf (5 + i) (dat ! i) = Some buf'"
      using True "1.prems"(1) by (simp add: put_def buf'_def)
    have ih: "copy_data dat (i + 1) buf'
      = Some (take (5 + (i + 1)) buf' @ drop (i + 1) dat @ drop (5 + length dat) buf')"
      using "1.IH" [OF True p] True "1.prems"(1) by (simp add: buf'_def)
    have "5 + i < length buf'"
      using True "1.prems"(1) by (simp add: buf'_def)
    then have "take (Suc (5 + i)) buf' = take (5 + i) buf' @ [buf' ! (5 + i)]"
      by (rule take_Suc_conv_app_nth)
    then have t: "take (5 + (i + 1)) buf' = take (5 + i) buf @ [dat ! i]"
      using True "1.prems"(1) by (simp add: buf'_def)
    have d: "drop (5 + length dat) buf' = drop (5 + length dat) buf"
      using True by (simp add: buf'_def)
    have dd: "drop i dat = dat ! i # drop (i + 1) dat"
      using True by (simp add: Cons_nth_drop_Suc)
    have "copy_data dat i buf = copy_data dat (i + 1) buf'"
      by (subst copy_data.simps) (simp only: True if_True p option.case)
    then show ?thesis
      by (simp only: ih t d dd) simp
  next
    case False
    then have "i = length dat"
      using "1.prems"(2) by simp
    moreover have "copy_data dat i buf = Some buf"
      by (subst copy_data.simps) (simp only: False if_False)
    ultimately show ?thesis
      by simp
  qed
qed

lemma length_resize [simp]: "length (resize v n) = n"
  by (simp add: resize_def)

lemma checksum_spec_append:
  assumes "unat (packet ! 1) + 2 \<le> length packet"
  shows "checksum_spec (packet @ xs) = checksum_spec packet"
proof -
  have "1 < length packet"
    using assms by simp
  then have "(packet @ xs) ! 1 = packet ! 1"
    by (simp add: nth_append)
  then show ?thesis
    using assms by (simp add: checksum_spec_def)
qed

lemma header_puts:
  assumes "5 \<le> length v"
  shows "v[0 := a, 1 := b, 2 := c, 3 := d, 4 := e] = [a, b, c, d, e] @ drop 5 v"
proof -
  have "\<exists>x0 x1 x2 x3 x4 rest. v = x0 # x1 # x2 # x3 # x4 # rest"
    using assms by (auto simp add: numeral_eq_Suc Suc_le_length_iff)
  then show ?thesis
    by auto
qed

lemma unat_of_nat_32: "m < 2 ^ 32 \<Longrightarrow> unat (of_nat m :: 32 word) = m"
  by (simp add: unat_of_nat)

lemma unat_length_p:
  assumes "length dat + 6 < 2 ^ 32"
  shows "unat (of_nat (length dat + 3) + 3 :: 32 word) = length dat + 6"
proof -
  have "(of_nat (length dat + 3) + 3 :: 32 word) = of_nat (length dat + 6)"
    by simp
  then show ?thesis
    using unat_of_nat_32 [OF assms] by (simp only:)
qed

lemma ucast_length_p:
  "(ucast (of_nat n :: 32 word) :: 8 word) = of_nat n"
  by transfer (simp add: take_bit_of_nat min_def)

lemma unat_length_byte: "unat (of_nat n :: 8 word) \<le> n"
  by (simp add: unat_of_nat)

lemma fillBuffer_closed:
  assumes "length dat + 6 < 2 ^ 32"
  shows "fillBuffer (Packet_data src dst cmd dat) buf0 = Some (wire_frame src dst cmd dat)"
proof -
  define r where "r = resize buf0 (length dat + 6)"
  define l :: "8 word" where "l = of_nat (length dat + 3)"
  define body where "body = frame_body src dst cmd dat"
  have lr: "length r = length dat + 6"
    by (simp add: r_def)
  define buf5 where "buf5 = r[0 := AUX_HDR, 1 := l, 2 := src, 3 := dst, 4 := cmd]"
  have buf5: "buf5 = [AUX_HDR, l, src, dst, cmd] @ drop 5 r"
    unfolding buf5_def using lr by (intro header_puts) simp
  have l5: "length buf5 = length dat + 6"
    by (simp add: buf5_def lr)
  have "length (drop (5 + length dat) buf5) = 1"
    by (simp add: l5)
  then obtain x where x: "drop (5 + length dat) buf5 = [x]"
    by (cases "drop (5 + length dat) buf5") auto
  have copy: "copy_data dat 0 buf5 = Some (body @ [x])"
    using copy_data_closed [of dat buf5 0] l5 x
    by (simp add: buf5 body_def frame_body_def l_def)
  have lb: "length body = length dat + 5" and b1: "body ! 1 = l"
    by (simp_all add: body_def frame_body_def l_def)
  have ul: "unat l \<le> length dat + 3"
    unfolding l_def by (rule unat_length_byte)
  have "unat ((body @ [x]) ! 1) + 2 \<le> length (body @ [x])"
    using ul lb b1 by (simp add: nth_append)
  then have "calculateChecksum (body @ [x]) = Some (checksum_spec (body @ [x]))"
    by (rule calculateChecksum_closed)
  moreover have "checksum_spec (body @ [x]) = checksum_spec body"
    using ul lb b1 by (intro checksum_spec_append) simp
  ultimately have cs: "calculateChecksum (body @ [x]) = Some (checksum_spec body)"
    by simp
  have pb: "put_back (body @ [x]) (checksum_spec body) = Some (body @ [checksum_spec body])"
    by (simp add: put_back_def)
  have puts: "put r 0 AUX_HDR = Some (r[0 := AUX_HDR])"
    "put (r[0 := AUX_HDR]) 1 l = Some (r[0 := AUX_HDR, 1 := l])"
    "put (r[0 := AUX_HDR, 1 := l]) 2 src = Some (r[0 := AUX_HDR, 1 := l, 2 := src])"
    "put (r[0 := AUX_HDR, 1 := l, 2 := src]) 3 dst
      = Some (r[0 := AUX_HDR, 1 := l, 2 := src, 3 := dst])"
    "put (r[0 := AUX_HDR, 1 := l, 2 := src, 3 := dst]) 4 cmd = Some buf5"
    by (simp_all add: put_def lr buf5_def)
  show ?thesis
    unfolding fillBuffer_def Packet_data_def
    apply (simp only: Packet.simps Let_def unat_length_p [OF assms] ucast_length_p)
    apply (fold r_def l_def)
    apply (simp only: puts bind.bind_lunit copy cs pb)
    apply (simp only: wire_frame_def body_def)
    done
qed

subsection \<open>Encoding and decoding\<close>

lemma unat_length_byte_small: "n < 256 \<Longrightarrow> unat (of_nat n :: 8 word) = n"
  by (simp add: unat_of_nat)

lemma ucast_length_byte:
  "n < 256 \<Longrightarrow> (ucast (of_nat n :: 8 word) :: 32 word) = of_nat n"
  by transfer (simp add: take_bit_of_nat min_def take_bit_nat_eq_self)

lemma parse_wire_frame:
  assumes "length dat \<le> 252"
  shows "parse p (wire_frame src dst cmd dat) = Some (Parsed, Packet_data src dst cmd dat)"
proof -
  define body where "body = frame_body src dst cmd dat"
  define f where "f = wire_frame src dst cmd dat"
  have f: "f = body @ [checksum_spec body]"
    by (simp add: f_def body_def wire_frame_def)
  have lb: "length body = length dat + 5"
    by (simp add: body_def frame_body_def)
  have ul: "unat (of_nat (length dat + 3) :: 8 word) = length dat + 3"
    using assms by (intro unat_length_byte_small) simp
  have b1: "body ! 1 = of_nat (length dat + 3)"
    by (simp add: body_def frame_body_def)
  have f1: "f ! 1 = of_nat (length dat + 3)"
    using lb b1 by (simp add: f nth_append)
  have size: "length f = unat (f ! 1) + 3"
    by (simp only: f1 ul) (simp add: f lb)
  have hdr: "f ! 0 = AUX_HDR"
    by (simp add: f body_def frame_body_def)
  have "checksum_spec f = checksum_spec body"
    unfolding f using b1 ul lb by (intro checksum_spec_append) simp
  moreover have "f ! (length f - 1) = checksum_spec body"
    by (simp add: f)
  ultimately have cs: "checksum_spec f = f ! (length f - 1)"
    by simp
  have "butlast (drop 5 f) = dat"
    by (simp add: f body_def frame_body_def butlast_append)
  moreover have "f ! 2 = src" "f ! 3 = dst" "f ! 4 = cmd"
    by (simp_all add: f body_def frame_body_def)
  moreover have "(ucast (f ! 1) :: 32 word) = of_nat (length dat + 3)"
    using assms by (simp only: f1) (intro ucast_length_byte, simp)
  ultimately have fields: "parsed_fields f = Packet_data src dst cmd dat"
    by (simp add: parsed_fields_def Packet_data_def)
  have "\<not> length f < 6"
    by (simp add: f lb)
  then have "parse p f = Some (Parsed, parsed_fields f)"
    using hdr size cs by (simp only: parse_closed) simp
  then have "parse p f = Some (Parsed, Packet_data src dst cmd dat)"
    by (simp only: fields)
  then show ?thesis
    by (simp only: f_def)
qed

text \<open>
  Claim C1. For every source, destination and command, the enumerators among them, and
  every payload of 0 to 252 bytes, \<open>Packet::parse\<close> applied to the buffer that
  \<open>Packet::fillBuffer\<close> has filled returns \<open>true\<close> and leaves the four fields, and the
  length, of the packet that was encoded. This holds whatever the buffer and the parsing
  packet held before.
\<close>

theorem parse_fillBuffer_roundtrip:
  assumes "length dat \<le> 252"
  shows "fillBuffer (Packet_data src dst cmd dat) buf0 \<bind> parse p
    = Some (Parsed, Packet_data src dst cmd dat)"
proof -
  have "length dat + 6 < 2 ^ 32"
    using assms by simp
  then have "fillBuffer (Packet_data src dst cmd dat) buf0 = Some (wire_frame src dst cmd dat)"
    by (rule fillBuffer_closed)
  then show ?thesis
    using parse_wire_frame [OF assms] by simp
qed

theorem parse_fillBuffer_roundtrip_witness:
  "length [1, 2, 3 :: 8 word] \<le> 252 \<and>
   fillBuffer (Packet_data APP FOCUSER MC_GOTO_FAST [1, 2, 3]) [] \<bind> parse Packet_default
     = Some (Parsed, \<lparr>length_p = 6, source = APP, destination = FOCUSER,
         command = MC_GOTO_FAST, data = [1, 2, 3]\<rparr>)"
  using parse_fillBuffer_roundtrip [of "[1, 2, 3]" APP FOCUSER MC_GOTO_FAST "[]" Packet_default]
  by (simp add: Packet_data_def)

text \<open>
  Claim C3 fails for an oversized payload. Neither the constructor nor \<open>fillBuffer\<close>
  tests the size of the data, and neither has a way to fail: for 253 bytes of data
  \<open>fillBuffer\<close> fills a buffer of 259 bytes whose length byte is 0.
\<close>

theorem fillBuffer_oversized_payload:
  "fillBuffer (Packet_data APP FOCUSER GET_VER (replicate 253 0)) []
     = Some ([0x3B, 0, 0x20, 0x12, 0xFE] @ replicate 253 0 @ [0])"
  by code_simp

text \<open>
  Claim C3, as the code has it. \<open>fillBuffer\<close> succeeds for every payload of at most 252
  bytes, and just as well for a longer one, as long as \<open>data.size() + 6\<close> fits the 32-bit
  arithmetic: it always fills the buffer with the frame of \<open>data.size() + 6\<close> bytes,
  whose length byte holds \<open>data.size() + 3\<close> modulo 256. There is no failure for a
  payload that is too large.
\<close>

theorem fillBuffer_any_payload:
  assumes "length dat + 6 < 2 ^ 32"
  shows "fillBuffer (Packet_data src dst cmd dat) buf0 = Some (wire_frame src dst cmd dat)
    \<and> length (wire_frame src dst cmd dat) = length dat + 6
    \<and> wire_frame src dst cmd dat ! 1 = of_nat ((length dat + 3) mod 256)"
proof -
  have "(of_nat ((length dat + 3) mod 256) :: 8 word) = of_nat (length dat + 3)"
    by (simp only: word_of_nat_eq_iff take_bit_eq_mod) simp
  then show ?thesis
    using fillBuffer_closed [OF assms]
    by (simp add: wire_frame_def frame_body_def)
qed

theorem fillBuffer_any_payload_witness:
  "length [7, 1 :: 8 word] + 6 < (2 :: nat) ^ 32 \<and>
   fillBuffer (Packet_data FOCUSER APP MC_GET_POSITION [7, 1]) [9, 9, 9]
     = Some [0x3B, 5, 0x12, 0x20, 0x01, 7, 1, 0xC0]"
  using fillBuffer_any_payload [of "[7, 1]" FOCUSER APP MC_GET_POSITION "[9, 9, 9]"]
  by (simp add: wire_frame_def frame_body_def checksum_spec_def AUX_HDR_def APP_def
        FOCUSER_def MC_GET_POSITION_def)

subsection \<open>The checks of \<open>parse\<close>\<close>

text \<open>
  Claim C4. \<open>Packet::parse\<close> never reads outside the buffer, and its result is decided
  by four checks in this order: fewer than 6 bytes; a first byte other than \<open>0x3B\<close>; a
  size other than \<open>buffer[1] + 3\<close>; a last byte other than the checksum of the bytes
  \<open>1\<close> to \<open>buffer[1] + 1\<close>. The first check that fails gives the result, and
  \<open>parse\<close> succeeds exactly when all four pass.
\<close>

theorem parse_checks_in_order:
  "map_option fst (parse p packet) = Some
     (if length packet < 6 then TooSmall
      else if packet ! 0 \<noteq> 0x3B then InvalidHeader
      else if length packet \<noteq> unat (packet ! 1) + 3 then SizeMismatch
      else if checksum_spec packet \<noteq> last packet then ChecksumMismatch
      else Parsed)
   \<and> (map_option fst (parse p packet) = Some Parsed) =
     (6 \<le> length packet \<and> packet ! 0 = 0x3B \<and> length packet = unat (packet ! 1) + 3
      \<and> checksum_spec packet = last packet)"
proof (cases "packet = []")
  case True
  then show ?thesis
    by (simp add: parse_closed)
next
  case False
  then have "packet ! (length packet - 1) = last packet"
    by (simp add: last_conv_nth)
  then show ?thesis
    by (simp only: parse_closed) (auto simp add: AUX_HDR_def)
qed

text \<open>
  Claim C7 fails: a failing \<open>parse\<close> can change the packet. On a frame with a wrong
  checksum it has stored all five fields before it returns \<open>false\<close>, and they differ
  from those of the packet it was called on.
\<close>

theorem parse_failure_changes_fields:
  "parse Packet_default [0x3B, 3, 0x12, 0x20, 0x01, 0x00]
     = Some (ChecksumMismatch,
         \<lparr>length_p = 3, source = FOCUSER, destination = APP, command = MC_GET_POSITION,
          data = []\<rparr>)
   \<and> \<lparr>length_p = 3, source = FOCUSER, destination = APP, command = MC_GET_POSITION,
          data = []\<rparr> \<noteq> Packet_default"
  by code_simp

text \<open>
  Claim C7, as the code has it. When \<open>parse\<close> fails on a buffer that is too short or
  has a wrong header, the fields of the packet are as before the call. When it fails on
  the size, \<open>length\<close> holds the length byte of the buffer and the other fields are as
  before. When it fails on the checksum, all five fields hold what the buffer says, as
  they do on success.
\<close>

theorem parse_failure_fields:
  assumes "parse p packet = Some (r, p')"
  shows "p' = (case r of
      TooSmall \<Rightarrow> p
    | InvalidHeader \<Rightarrow> p
    | SizeMismatch \<Rightarrow> p\<lparr>length_p := ucast (packet ! 1)\<rparr>
    | ChecksumMismatch \<Rightarrow> parsed_fields packet
    | Parsed \<Rightarrow> parsed_fields packet)"
proof -
  from assms have "(r, p') =
     (if length packet < 6 then (TooSmall, p)
      else if packet ! 0 \<noteq> AUX_HDR then (InvalidHeader, p)
      else if length packet \<noteq> unat (packet ! 1) + 3
        then (SizeMismatch, p\<lparr>length_p := ucast (packet ! 1)\<rparr>)
      else if checksum_spec packet \<noteq> packet ! (length packet - 1)
        then (ChecksumMismatch, parsed_fields packet)
      else (Parsed, parsed_fields packet))"
    by (simp only: parse_closed option.inject)
  then show ?thesis
    by (auto split: if_splits)
qed

theorem parse_failure_fields_witness:
  "parse Packet_default [0x3B, 9, 0x12, 0x20, 0x01, 0x00]
     = Some (SizeMismatch, Packet_default\<lparr>length_p := 9\<rparr>)
   \<and> Packet_default\<lparr>length_p := 9\<rparr>
     = Packet_default\<lparr>length_p := ucast ([0x3B, 9, 0x12, 0x20, 0x01, 0x00 :: 8 word] ! 1)\<rparr>"
proof -
  have h: "parse Packet_default [0x3B, 9, 0x12, 0x20, 0x01, 0x00]
    = Some (SizeMismatch, Packet_default\<lparr>length_p := 9\<rparr>)"
    by code_simp
  show ?thesis
    using h parse_failure_fields [OF h] by (simp only: parse_result.case)
qed

subsection \<open>Building the packet\<close>

lemma push_all_closed: "push_all rawData i packet = packet @ drop i rawData"
proof (induction rawData i packet rule: push_all.induct)
  case (1 rawData i packet)
  show ?case
  proof (cases "i < length rawData")
    case True
    then have "push_all rawData i packet = push_all rawData (i + 1) (packet @ [rawData ! i])"
      by (subst push_all.simps) simp
    also have "\<dots> = (packet @ [rawData ! i]) @ drop (i + 1) rawData"
      using True by (rule "1.IH")
    also have "\<dots> = packet @ drop i rawData"
      using True by (simp add: Cons_nth_drop_Suc)
    finally show ?thesis .
  next
    case False
    then have "push_all rawData i packet = packet"
      by (subst push_all.simps) simp
    then show ?thesis
      using False by simp
  qed
qed

lemma build_packet_closed:
  assumes "rawData \<noteq> []"
  shows "build_packet rawData
    = Some (if rawData ! 0 = AUX_HDR then rawData else AUX_HDR # rawData)"
  using assms by (simp add: build_packet_def at_def push_all_closed)

lemma finalize_closed:
  assumes "rawData \<noteq> []"
  shows "finalize rawData reply =
      (let packet = (if rawData ! 0 = AUX_HDR then rawData else AUX_HDR # rawData)
       in if length packet < 2 then None
          else if length packet \<noteq> unat (packet ! 1) + 3 then Some (False, reply)
          else map_option (\<lambda>(r, p). (r = Parsed, p)) (parse reply packet))"
proof -
  define packet where "packet = (if rawData ! 0 = AUX_HDR then rawData else AUX_HDR # rawData)"
  have b: "build_packet rawData = Some packet"
    unfolding packet_def using assms by (rule build_packet_closed)
  have "finalize rawData reply =
    (if length packet < 2 then None
     else if length packet \<noteq> unat (packet ! 1) + 3 then Some (False, reply)
     else map_option (\<lambda>(r, p). (r = Parsed, p)) (parse reply packet))"
  proof (cases "length packet < 2")
    case True
    then show ?thesis
      using assms by (simp add: finalize_def b at_def)
  next
    case False
    then have "at packet 1 = Some (packet ! 1)"
      by (simp add: at_def)
    then show ?thesis
      using assms False
      by (auto simp add: finalize_def b parse_closed Let_def)
  qed
  then show ?thesis
    by (simp add: packet_def Let_def)
qed

text \<open>
  The only bytes collected for which \<open>readPacket\<close> reads outside a vector are the single
  byte \<open>0x3B\<close>.
\<close>

lemma finalize_None_iff: "finalize rawData reply = None \<longleftrightarrow> rawData = [AUX_HDR]"
proof (cases "rawData = []")
  case True
  then show ?thesis
    by (simp add: finalize_def)
next
  case False
  define packet where "packet = (if rawData ! 0 = AUX_HDR then rawData else AUX_HDR # rawData)"
  have short: "length packet < 2 \<longleftrightarrow> rawData = [AUX_HDR]"
    using False by (cases rawData) (auto simp add: packet_def)
  have fin: "finalize rawData reply =
    (if length packet < 2 then None
     else if length packet \<noteq> unat (packet ! 1) + 3 then Some (False, reply)
     else map_option (\<lambda>(r, p). (r = Parsed, p)) (parse reply packet))"
    using finalize_closed [OF False, of reply] by (simp only: packet_def Let_def)
  obtain res where res: "parse reply packet = Some res"
    by (simp only: parse_closed)
  have "finalize rawData reply = None \<longleftrightarrow> length packet < 2"
  proof (cases "length packet < 2")
    case True
    then show ?thesis
      by (simp only: fin) simp
  next
    case long: False
    show ?thesis
    proof (cases "length packet \<noteq> unat (packet ! 1) + 3")
      case True
      then have "finalize rawData reply = Some (False, reply)"
        using long unfolding fin by simp
      then show ?thesis
        using long by simp
    next
      case False
      then have "finalize rawData reply
        = map_option (\<lambda>(r, p). (r = Parsed, p)) (parse reply packet)"
        using long unfolding fin by simp
      then show ?thesis
        using long by (simp add: res)
    qed
  qed
  then show ?thesis
    using short by simp
qed

text \<open>
  Claim C8. For bytes collected that are not empty, \<open>readPacket\<close> builds the packet as
  the header followed by the bytes when the first byte is not the header \<open>0x3B\<close>, and
  as the bytes themselves when it is. That packet is what the rest of \<open>readPacket\<close> works
  on: its byte 1 is read (outside the packet when it has one byte only), its size is
  compared with that byte plus 3, and when they agree the packet is passed to \<open>parse\<close>.
\<close>

theorem build_packet_header:
  assumes "rawData \<noteq> []"
  shows "build_packet rawData
      = Some (if rawData ! 0 = AUX_HDR then rawData else AUX_HDR # rawData)
    \<and> finalize rawData reply =
      (let packet = (if rawData ! 0 = AUX_HDR then rawData else AUX_HDR # rawData)
       in if length packet < 2 then None
          else if length packet \<noteq> unat (packet ! 1) + 3 then Some (False, reply)
          else map_option (\<lambda>(r, p). (r = Parsed, p)) (parse reply packet))"
  using build_packet_closed [OF assms] finalize_closed [OF assms] by (rule conjI)

theorem build_packet_header_witness:
  "[0x05, 0x12, 0x20, 0xFE, 7, 1, 0xC3 :: 8 word] \<noteq> []
   \<and> build_packet [0x05, 0x12, 0x20, 0xFE, 7, 1, 0xC3]
     = Some [0x3B, 0x05, 0x12, 0x20, 0xFE, 7, 1, 0xC3]
   \<and> finalize [0x05, 0x12, 0x20, 0xFE, 7, 1, 0xC3] Packet_default
     = Some (True, \<lparr>length_p = 5, source = FOCUSER, destination = APP, command = GET_VER,
         data = [7, 1]\<rparr>)
   \<and> build_packet [0x3B, 0x05, 0x12, 0x20, 0xFE, 7, 1, 0xC3]
     = Some [0x3B, 0x05, 0x12, 0x20, 0xFE, 7, 1, 0xC3]"
proof -
  have p: "parse Packet_default [0x3B, 0x05, 0x12, 0x20, 0xFE, 7, 1, 0xC3]
    = Some (Parsed, \<lparr>length_p = 5, source = FOCUSER, destination = APP, command = GET_VER,
        data = [7, 1]\<rparr>)"
    by code_simp
  show ?thesis
    using build_packet_header [of "[0x05, 0x12, 0x20, 0xFE, 7, 1, 0xC3]" Packet_default]
      build_packet_header [of "[0x3B, 0x05, 0x12, 0x20, 0xFE, 7, 1, 0xC3]" Packet_default]
    by (simp add: AUX_HDR_def p)
qed

text \<open>
  Claim C10 fails when the only byte collected is the header \<open>0x3B\<close>: the packet is that
  one byte, and \<open>packet[1]\<close> is read outside it. The second part shows a port that
  delivers this: one byte \<open>0x3B\<close> at time 5 and nothing after it.
\<close>

theorem readPacket_lone_header:
  "finalize [0x3B] Packet_default = None
   \<and> readPacket \<lparr>clock = 0, rx = [(5, 0x3B)], tx = [], wr = []\<rparr> Packet_default = None"
  by code_simp

subsection \<open>The collecting loop\<close>

lemma millis_less_iff: "millis w - st < 100 \<longleftrightarrow> unat (millis w - st) < 100"
  by (simp add: word_less_nat_alt)

lemma unat_millis_delay1:
  assumes "unat (millis w - st) < 100"
  shows "unat (millis (delay 1 w) - st) = unat (millis w - st) + 1"
proof -
  have "millis (delay 1 w) - st = (millis w - st) + 1"
    by (simp add: millis_def delay_def)
  moreover have "unat ((millis w - st) + 1) = unat (millis w - st) + 1"
    using assms by (simp add: unat_word_ariths)
  ultimately show ?thesis
    by (simp only:)
qed

lemma quiet_not_available: "quiet_until w (clock w + Suc n) \<Longrightarrow> \<not> available w"
  by (auto simp add: quiet_until_def available_def split: list.splits)

lemma collect_quiet:
  assumes "unat (millis w - st) + n = 100" and "quiet_until w (clock w + n)"
  shows "collect w st raw = (delay n w, raw)"
  using assms
proof (induction n arbitrary: w)
  case 0
  then have "\<not> millis w - st < 100"
    by (simp add: millis_less_iff)
  then have "collect w st raw = (w, raw)"
    by (subst collect.simps) simp
  then show ?case
    by (simp add: delay_def)
next
  case (Suc n)
  then have less: "unat (millis w - st) < 100"
    by simp
  have na: "\<not> available w"
    using Suc.prems(2) by (rule quiet_not_available)
  have "collect w st raw = collect (delay 1 w) st raw"
    using less na by (subst collect.simps) (simp add: millis_less_iff)
  also have "\<dots> = (delay n (delay 1 w), raw)"
  proof (rule Suc.IH)
    show "unat (millis (delay 1 w) - st) + n = 100"
      using Suc.prems(1) unat_millis_delay1 [OF less] by simp
    show "quiet_until (delay 1 w) (clock (delay 1 w) + n)"
      using Suc.prems(2) by (simp add: quiet_until_def delay_def)
  qed
  finally show ?case
    by (simp add: delay_def)
qed

lemma collect_next:
  assumes "unat (millis w - st) + n = 100" and "rx w = (t, b) # rest" and "t < clock w + n"
    and "0 < n"
  shows "collect w st raw
    = collect (w\<lparr>clock := max (clock w) t + 1, rx := rest\<rparr>) (of_nat (max (clock w) t))
        (raw @ [b])"
  using assms
proof (induction "t - clock w" arbitrary: w n)
  case 0
  then have now: "t \<le> clock w" and less: "unat (millis w - st) < 100"
    by simp_all
  then have av: "available w" and rd: "serial_read w = (b, w\<lparr>rx := rest\<rparr>)"
    using "0.prems"(2) by (simp_all add: available_def serial_read_def)
  have "collect w st raw
    = collect (delay 1 (w\<lparr>rx := rest\<rparr>)) (millis (w\<lparr>rx := rest\<rparr>)) (raw @ [b])"
    using less av by (subst collect.simps) (simp add: millis_less_iff rd)
  moreover have "delay 1 (w\<lparr>rx := rest\<rparr>) = w\<lparr>clock := max (clock w) t + 1, rx := rest\<rparr>"
    using now by (simp add: delay_def max_def)
  moreover have "millis (w\<lparr>rx := rest\<rparr>) = of_nat (max (clock w) t)"
    using now by (simp add: millis_def max_def)
  ultimately show ?case
    by (simp only:)
next
  case (Suc d)
  then have later: "clock w < t" and less: "unat (millis w - st) < 100"
    by simp_all
  then have na: "\<not> available w"
    using Suc.prems(2) by (simp add: available_def)
  obtain m where n: "n = Suc m"
    using Suc.prems(3) later by (cases n) simp_all
  have "collect w st raw = collect (delay 1 w) st raw"
    using less na by (subst collect.simps) (simp add: millis_less_iff)
  also have "\<dots> = collect (delay 1 w\<lparr>clock := max (clock (delay 1 w)) t + 1, rx := rest\<rparr>)
      (of_nat (max (clock (delay 1 w)) t)) (raw @ [b])"
  proof (rule Suc.hyps(1))
    show "d = t - clock (delay 1 w)"
      using Suc.hyps(2) by (simp add: delay_def)
    show "unat (millis (delay 1 w) - st) + m = 100"
      using Suc.prems(1) unat_millis_delay1 [OF less] n by simp
    show "rx (delay 1 w) = (t, b) # rest"
      using Suc.prems(2) by (simp add: delay_def)
    show "t < clock (delay 1 w) + m"
      using Suc.prems(3) n by (simp add: delay_def)
    show "0 < m"
      using Suc.prems(3) later n by simp
  qed
  also have "delay 1 w\<lparr>clock := max (clock (delay 1 w)) t + 1, rx := rest\<rparr>
    = w\<lparr>clock := max (clock w) t + 1, rx := rest\<rparr>"
    using later by (simp add: delay_def max_def)
  also have "max (clock (delay 1 w)) t = max (clock w) t"
    using later by (simp add: delay_def max_def)
  finally show ?case .
qed

lemma readPacket_quiet:
  assumes "quiet_until w (clock w + 100)"
  shows "readPacket w reply = Some (False, reply, delay 100 w)"
proof -
  have "unat (millis w - millis w) + 100 = 100"
    by simp
  then have "collect w (millis w) [] = (delay 100 w, [])"
    using assms by (rule collect_quiet)
  then show ?thesis
    by (simp add: readPacket_def finalize_def)
qed

text \<open>
  Claim C9 fails: \<open>TIMEOUT_MS\<close> is used nowhere, and \<open>readPacket\<close> waits for a first
  byte no longer than the 100 ms of the quiet interval. Here a complete response starts
  to arrive 500 ms after the call, well before 2000 ms; \<open>readPacket\<close> has returned
  \<open>false\<close> at 100 ms and the response is still unread.
\<close>

theorem readPacket_gives_up_after_quiet_interval:
  "readPacket
     \<lparr>clock = 0,
      rx = [(500, 0x3B), (501, 0x05), (502, 0x12), (503, 0x20), (504, 0xFE), (505, 7),
            (506, 1), (507, 0xC3)],
      tx = [], wr = []\<rparr> Packet_default
   = Some (False, Packet_default,
       \<lparr>clock = 100,
        rx = [(500, 0x3B), (501, 0x05), (502, 0x12), (503, 0x20), (504, 0xFE), (505, 7),
              (506, 1), (507, 0xC3)],
        tx = [], wr = []\<rparr>)
   \<and> (500 :: nat) < unat TIMEOUT_MS"
  by code_simp

text \<open>
  Claim C9, as the code has it. The receive phase is driven by the quiet interval of
  100 ms alone. When no byte can be read during the first 100 ms, \<open>readPacket\<close> returns
  \<open>false\<close> at that moment with nothing consumed. In the loop, with \<open>n\<close> milliseconds
  left of the interval that began at \<open>startTime\<close>: when no byte can be read in that time
  the loop ends as the interval ends; when the next byte arrives in that time it is read
  on arrival (at once if it is there already), and the interval starts again at the time
  of reading.
\<close>

theorem readPacket_quiet_interval_only:
  "(quiet_until w (clock w + 100) \<longrightarrow> readPacket w reply = Some (False, reply, delay 100 w))
   \<and> (unat (millis w - startTime) + n = 100 \<and> quiet_until w (clock w + n)
       \<longrightarrow> collect w startTime rawData = (delay n w, rawData))
   \<and> (unat (millis w - startTime) + n = 100 \<and> 0 < n \<and> rx w = (t, b) # rest
         \<and> t < clock w + n
       \<longrightarrow> collect w startTime rawData
         = collect (w\<lparr>clock := max (clock w) t + 1, rx := rest\<rparr>) (of_nat (max (clock w) t))
             (rawData @ [b]))"
  using readPacket_quiet collect_quiet collect_next by blast

theorem readPacket_quiet_interval_only_witness:
  "readPacket \<lparr>clock = 0, rx = [(100, 0x3B)], tx = [], wr = []\<rparr> Packet_default
     = Some (False, Packet_default, \<lparr>clock = 100, rx = [(100, 0x3B)], tx = [], wr = []\<rparr>)
   \<and> collect \<lparr>clock = 0, rx = [(100, 0x3B)], tx = [], wr = []\<rparr> 0 []
     = (\<lparr>clock = 100, rx = [(100, 0x3B)], tx = [], wr = []\<rparr>, [])
   \<and> collect \<lparr>clock = 0, rx = [(99, 0x3B)], tx = [], wr = []\<rparr> 0 []
     = (\<lparr>clock = 199, rx = [], tx = [], wr = []\<rparr>, [0x3B])"
  using
    readPacket_quiet_interval_only [where w = "\<lparr>clock = 0, rx = [(100, 0x3B)], tx = [], wr = []\<rparr>"
      and reply = Packet_default and startTime = 0 and n = 100 and rawData = "[]"
      and t = 0 and b = 0 and rest = "[]"]
    readPacket_quiet_interval_only [where w = "\<lparr>clock = 0, rx = [(99, 0x3B)], tx = [], wr = []\<rparr>"
      and reply = Packet_default and startTime = 0 and n = 100 and rawData = "[]"
      and t = 99 and b = "0x3B" and rest = "[]"]
    readPacket_quiet_interval_only [where w = "\<lparr>clock = 100, rx = [], tx = [], wr = []\<rparr>"
      and reply = Packet_default and startTime = 99 and n = 99 and rawData = "[0x3B]"
      and t = 0 and b = 0 and rest = "[]"]
  by (simp add: quiet_until_def millis_def delay_def)

subsection \<open>What is written to the port\<close>

lemma tx_flushSerial: "tx (flushSerial w) = tx w"
proof (induction w rule: flushSerial.induct)
  case (1 w)
  show ?case
  proof (cases "available w")
    case True
    then have "flushSerial w = flushSerial (snd (serial_read w))"
      by (subst flushSerial.simps) simp
    moreover have "tx (snd (serial_read w)) = tx w"
      by (simp add: serial_read_def split: list.splits)
    ultimately show ?thesis
      using "1.IH" [OF True] by simp
  next
    case False
    then show ?thesis
      by (subst flushSerial.simps) simp
  qed
qed

lemma tx_collect: "tx (fst (collect w st raw)) = tx w"
proof (induction w st raw rule: collect.induct)
  case (1 w st raw)
  show ?case
  proof (cases "millis w - st < 100")
    case False
    then show ?thesis
      by (subst collect.simps) simp
  next
    case less: True
    show ?thesis
    proof (cases "available w")
      case True
      obtain b w' where rd: "serial_read w = (b, w')"
        by (cases "serial_read w")
      then have "tx w' = tx w"
        by (auto simp add: serial_read_def split: list.splits if_splits)
      moreover have "collect w st raw = collect (delay 1 w') (millis w') (raw @ [b])"
        using less True by (subst collect.simps) (simp add: rd)
      moreover have "tx (fst (collect (delay 1 w') (millis w') (raw @ [b]))) = tx (delay 1 w')"
        using less True rd by (intro "1.IH"(1)) simp_all
      ultimately show ?thesis
        by (simp add: delay_def)
    next
      case False
      then have "collect w st raw = collect (delay 1 w) st raw"
        using less by (subst collect.simps) simp
      moreover have "tx (fst (collect (delay 1 w) st raw)) = tx (delay 1 w)"
        using less False by (rule "1.IH"(2))
      ultimately show ?thesis
        by (simp add: delay_def)
    qed
  qed
qed

lemma sendPacket_tx:
  assumes "sendPacket c w dest cmd dat = Some (sent, w')"
  shows "length (tx w') = length (tx w) + 1"
  using assms
  by (auto simp add: sendPacket_def serial_write_def serial_flush_def tx_flushSerial Let_def
      split: bind_splits if_splits)

lemma readPacket_tx:
  assumes "readPacket w reply = Some (ok, r, w')"
  shows "tx w' = tx w"
proof -
  obtain w1 raw where c: "collect w (millis w) [] = (w1, raw)"
    by (cases "collect w (millis w) []")
  then have "w' = w1"
    using assms by (auto simp add: readPacket_def split: bind_splits)
  moreover have "tx w1 = tx w"
    using tx_collect [of w "millis w" "[]"] c by simp
  ultimately show ?thesis
    by simp
qed

subsection \<open>The retry loop\<close>

lemma attempt_ReadFailed:
  assumes "sendPacket c w dest cmd dat = Some (True, w')"
    and "readPacket w' Packet_default = Some (False, r, w'')"
  shows "attempt c w dest cmd dat = Some (ReadFailed, w'')"
  using assms by (simp add: attempt_def)

lemma attempt_InvalidResponse:
  assumes "sendPacket c w dest cmd dat = Some (True, w')"
    and "readPacket w' Packet_default = Some (True, r, w'')"
    and "command r \<noteq> cmd \<or> destination r \<noteq> APP \<or> source r \<noteq> dest"
  shows "attempt c w dest cmd dat = Some (InvalidResponse, w'')"
  using assms by (auto simp add: attempt_def)

lemma attempt_Success:
  assumes "sendPacket c w dest cmd dat = Some (True, w')"
    and "readPacket w' Packet_default = Some (True, r, w'')"
    and "command r = cmd" and "destination r = APP" and "source r = dest"
  shows "attempt c w dest cmd dat = Some (Success (data r), w'')"
  using assms by (simp add: attempt_def)

lemma sendCommand_loop_continue:
  assumes "retryCount < RETRY_COUNT" and "attempt c w dest cmd dat = Some (res, w')"
    and "\<forall>d. res \<noteq> Success d"
  shows "sendCommand_loop c w dest cmd dat reply retryCount
    = sendCommand_loop c w' dest cmd dat reply (retryCount + 1)"
  using assms by (subst sendCommand_loop.simps) (cases res; simp)

lemma sendCommand_loop_success:
  assumes "retryCount < RETRY_COUNT" and "attempt c w dest cmd dat = Some (Success d, w')"
  shows "sendCommand_loop c w dest cmd dat reply retryCount = Some (True, d, w')"
  using assms by (subst sendCommand_loop.simps) simp

lemma sendCommand_loop_exhausted:
  "sendCommand_loop c w dest cmd dat reply RETRY_COUNT = Some (False, reply, w)"
  by (subst sendCommand_loop.simps) simp

lemma attempt_tx:
  assumes "attempt c w dest cmd dat = Some (res, w')"
  shows "length (tx w') = length (tx w) + 1"
proof -
  obtain sent w1 where s: "sendPacket c w dest cmd dat = Some (sent, w1)"
    using assms by (auto simp add: attempt_def split: bind_splits)
  show ?thesis
  proof (cases sent)
    case False
    then have "w' = w1"
      using assms s by (simp add: attempt_def)
    then show ?thesis
      using sendPacket_tx [OF s] by simp
  next
    case True
    then obtain ok r where "readPacket w1 Packet_default = Some (ok, r, w')"
      using assms s by (auto simp add: attempt_def split: bind_splits if_splits)
    then show ?thesis
      using sendPacket_tx [OF s] readPacket_tx by fastforce
  qed
qed

lemma sendCommand_loop_writes:
  assumes "sendCommand_loop c w dest cmd dat reply retryCount = Some (ok, rep, w')"
  shows "length (tx w') \<le> length (tx w) + (RETRY_COUNT - retryCount)"
  using assms
proof (induction "RETRY_COUNT - retryCount" arbitrary: w retryCount)
  case 0
  then have "sendCommand_loop c w dest cmd dat reply retryCount = Some (False, reply, w)"
    by (subst sendCommand_loop.simps) simp
  then show ?case
    using "0.prems" by simp
next
  case (Suc k)
  then have less: "retryCount < RETRY_COUNT"
    by simp
  obtain res w1 where a: "attempt c w dest cmd dat = Some (res, w1)"
    using Suc.prems less
    by (subst (asm) sendCommand_loop.simps) (auto split: option.splits)
  have one: "length (tx w1) = length (tx w) + 1"
    using a by (rule attempt_tx)
  show ?case
  proof (cases "\<exists>d. res = Success d")
    case True
    then obtain d where "res = Success d" ..
    then have "sendCommand_loop c w dest cmd dat reply retryCount = Some (True, d, w1)"
      using less a by (intro sendCommand_loop_success) simp_all
    then have "w' = w1"
      using Suc.prems by simp
    then show ?thesis
      using one less by simp
  next
    case False
    then have "sendCommand_loop c w dest cmd dat reply retryCount
      = sendCommand_loop c w1 dest cmd dat reply (retryCount + 1)"
      using less a by (intro sendCommand_loop_continue) simp_all
    then have "sendCommand_loop c w1 dest cmd dat reply (retryCount + 1) = Some (ok, rep, w')"
      using Suc.prems by simp
    moreover have "k = RETRY_COUNT - (retryCount + 1)"
      using Suc.hyps(2) by simp
    ultimately have "length (tx w') \<le> length (tx w1) + (RETRY_COUNT - (retryCount + 1))"
      by (rule Suc.hyps(1) [rotated])
    then show ?thesis
      using one less by simp
  qed
qed

lemma sendCommand_at_most_RETRY_COUNT_writes:
  assumes "sendCommand c w dest cmd dat reply = Some (ok, rep, w')"
  shows "length (tx w') \<le> length (tx w) + RETRY_COUNT"
  using sendCommand_loop_writes [of c w dest cmd dat reply 0 ok rep w'] assms
  by (simp add: sendCommand_def)


text \<open>
  Claim C5. When in three attempts in a row the packet is sent and \<open>readPacket\<close> fails,
  \<open>sendCommand\<close> returns \<open>false\<close> and leaves \<open>reply\<close> as it was; the port is as the
  third attempt left it, with \<open>RETRY_COUNT = 3\<close> more frames written than before: there
  is no fourth attempt. (By \<open>sendCommand_at_most_RETRY_COUNT_writes\<close> no run at all
  writes more than three frames.)
\<close>

theorem sendCommand_retry_bound:
  assumes "sendPacket c w0 dest cmd dat = Some (True, w0')"
    and "readPacket w0' Packet_default = Some (False, r1, w1)"
    and "sendPacket c w1 dest cmd dat = Some (True, w1')"
    and "readPacket w1' Packet_default = Some (False, r2, w2)"
    and "sendPacket c w2 dest cmd dat = Some (True, w2')"
    and "readPacket w2' Packet_default = Some (False, r3, w3)"
  shows "sendCommand c w0 dest cmd dat reply = Some (False, reply, w3)
    \<and> length (tx w3) = length (tx w0) + RETRY_COUNT"
proof -
  have a1: "attempt c w0 dest cmd dat = Some (ReadFailed, w1)"
    using assms(1,2) by (rule attempt_ReadFailed)
  have a2: "attempt c w1 dest cmd dat = Some (ReadFailed, w2)"
    using assms(3,4) by (rule attempt_ReadFailed)
  have a3: "attempt c w2 dest cmd dat = Some (ReadFailed, w3)"
    using assms(5,6) by (rule attempt_ReadFailed)
  have "sendCommand c w0 dest cmd dat reply = sendCommand_loop c w0 dest cmd dat reply 0"
    by (simp add: sendCommand_def)
  also have "\<dots> = sendCommand_loop c w1 dest cmd dat reply 1"
    using sendCommand_loop_continue [OF _ a1, of 0 reply] by (simp add: RETRY_COUNT_def)
  also have "\<dots> = sendCommand_loop c w2 dest cmd dat reply 2"
    using sendCommand_loop_continue [OF _ a2, of 1 reply]
    by (simp add: RETRY_COUNT_def numeral_2_eq_2)
  also have "\<dots> = sendCommand_loop c w3 dest cmd dat reply 3"
    using sendCommand_loop_continue [OF _ a3, of 2 reply]
    by (simp add: RETRY_COUNT_def numeral_3_eq_3)
  also have "\<dots> = Some (False, reply, w3)"
    using sendCommand_loop_exhausted [of c w3 dest cmd dat reply] by (simp add: RETRY_COUNT_def)
  finally have res: "sendCommand c w0 dest cmd dat reply = Some (False, reply, w3)" .
  have "length (tx w1) = length (tx w0) + 1"
    using sendPacket_tx [OF assms(1)] readPacket_tx [OF assms(2)] by simp
  moreover have "length (tx w2) = length (tx w1) + 1"
    using sendPacket_tx [OF assms(3)] readPacket_tx [OF assms(4)] by simp
  moreover have "length (tx w3) = length (tx w2) + 1"
    using sendPacket_tx [OF assms(5)] readPacket_tx [OF assms(6)] by simp
  ultimately have "length (tx w3) = length (tx w0) + 3"
    by simp
  then show ?thesis
    using res by (simp add: RETRY_COUNT_def)
qed

theorem sendCommand_retry_bound_witness:
  "sendCommand Communicator_default
     \<lparr>clock = 0,
      rx = [(150, 0x3B), (151, 3), (152, 0x12), (153, 0x20), (154, 0xFE), (155, 0x00),
            (300, 0x3B), (301, 3), (302, 0x12)],
      tx = [], wr = []\<rparr> FOCUSER GET_VER [] [9]
   = Some (False, [9],
       \<lparr>clock = 402, rx = [],
        tx = [[0x3B, 3, 0x20, 0x12, 0xFE, 0xCD], [0x3B, 3, 0x20, 0x12, 0xFE, 0xCD],
              [0x3B, 3, 0x20, 0x12, 0xFE, 0xCD]],
        wr = []\<rparr>)"
proof -
  have s1: "sendPacket Communicator_default
     \<lparr>clock = 0,
      rx = [(150, 0x3B), (151, 3), (152, 0x12), (153, 0x20), (154, 0xFE), (155, 0x00),
            (300, 0x3B), (301, 3), (302, 0x12)],
      tx = [], wr = []\<rparr> FOCUSER GET_VER []
    = Some (True,
       \<lparr>clock = 0,
        rx = [(150, 0x3B), (151, 3), (152, 0x12), (153, 0x20), (154, 0xFE), (155, 0x00),
              (300, 0x3B), (301, 3), (302, 0x12)],
        tx = [[0x3B, 3, 0x20, 0x12, 0xFE, 0xCD]], wr = []\<rparr>)"
    by code_simp
  have r1: "readPacket
     \<lparr>clock = 0,
      rx = [(150, 0x3B), (151, 3), (152, 0x12), (153, 0x20), (154, 0xFE), (155, 0x00),
            (300, 0x3B), (301, 3), (302, 0x12)],
      tx = [[0x3B, 3, 0x20, 0x12, 0xFE, 0xCD]], wr = []\<rparr> Packet_default
    = Some (False, Packet_default,
       \<lparr>clock = 100,
        rx = [(150, 0x3B), (151, 3), (152, 0x12), (153, 0x20), (154, 0xFE), (155, 0x00),
              (300, 0x3B), (301, 3), (302, 0x12)],
        tx = [[0x3B, 3, 0x20, 0x12, 0xFE, 0xCD]], wr = []\<rparr>)"
    by code_simp
  have s2: "sendPacket Communicator_default
     \<lparr>clock = 100,
      rx = [(150, 0x3B), (151, 3), (152, 0x12), (153, 0x20), (154, 0xFE), (155, 0x00),
            (300, 0x3B), (301, 3), (302, 0x12)],
      tx = [[0x3B, 3, 0x20, 0x12, 0xFE, 0xCD]], wr = []\<rparr> FOCUSER GET_VER []
    = Some (True,
       \<lparr>clock = 100,
        rx = [(150, 0x3B), (151, 3), (152, 0x12), (153, 0x20), (154, 0xFE), (155, 0x00),
              (300, 0x3B), (301, 3), (302, 0x12)],
        tx = [[0x3B, 3, 0x20, 0x12, 0xFE, 0xCD], [0x3B, 3, 0x20, 0x12, 0xFE, 0xCD]],
        wr = []\<rparr>)"
    by code_simp
  have r2: "readPacket
     \<lparr>clock = 100,
      rx = [(150, 0x3B), (151, 3), (152, 0x12), (153, 0x20), (154, 0xFE), (155, 0x00),
            (300, 0x3B), (301, 3), (302, 0x12)],
      tx = [[0x3B, 3, 0x20, 0x12, 0xFE, 0xCD], [0x3B, 3, 0x20, 0x12, 0xFE, 0xCD]],
      wr = []\<rparr> Packet_default
    = Some (False,
       \<lparr>length_p = 3, source = 0x12, destination = 0x20, command = 0xFE, data = []\<rparr>,
       \<lparr>clock = 255, rx = [(300, 0x3B), (301, 3), (302, 0x12)],
        tx = [[0x3B, 3, 0x20, 0x12, 0xFE, 0xCD], [0x3B, 3, 0x20, 0x12, 0xFE, 0xCD]],
        wr = []\<rparr>)"
    by code_simp
  have s3: "sendPacket Communicator_default
     \<lparr>clock = 255, rx = [(300, 0x3B), (301, 3), (302, 0x12)],
      tx = [[0x3B, 3, 0x20, 0x12, 0xFE, 0xCD], [0x3B, 3, 0x20, 0x12, 0xFE, 0xCD]],
      wr = []\<rparr> FOCUSER GET_VER []
    = Some (True,
       \<lparr>clock = 255, rx = [(300, 0x3B), (301, 3), (302, 0x12)],
        tx = [[0x3B, 3, 0x20, 0x12, 0xFE, 0xCD], [0x3B, 3, 0x20, 0x12, 0xFE, 0xCD],
              [0x3B, 3, 0x20, 0x12, 0xFE, 0xCD]],
        wr = []\<rparr>)"
    by code_simp
  have r3: "readPacket
     \<lparr>clock = 255, rx = [(300, 0x3B), (301, 3), (302, 0x12)],
      tx = [[0x3B, 3, 0x20, 0x12, 0xFE, 0xCD], [0x3B, 3, 0x20, 0x12, 0xFE, 0xCD],
            [0x3B, 3, 0x20, 0x12, 0xFE, 0xCD]],
      wr = []\<rparr> Packet_default
    = Some (False, Packet_default,
       \<lparr>clock = 402, rx = [],
        tx = [[0x3B, 3, 0x20, 0x12, 0xFE, 0xCD], [0x3B, 3, 0x20, 0x12, 0xFE, 0xCD],
              [0x3B, 3, 0x20, 0x12, 0xFE, 0xCD]],
        wr = []\<rparr>)"
    by code_simp
  show ?thesis
    using sendCommand_retry_bound [OF s1 r1 s2 r2 s3 r3, of "[9]"] by simp
qed

text \<open>
  The retry after a response with the wrong command, for a communicator whose source is
  \<open>APP\<close>, as the default communicator's is. When the first attempt reads a well-formed
  response whose command is not the command sent, and the second attempt reads a correct
  response (the command sent, the source equal to the destination of the request, the
  destination equal to the source of the communicator), \<open>sendCommand\<close> returns \<open>true\<close>
  with the data of the second response; the port is as the second attempt left it, with
  two frames written: there is no third attempt.
\<close>

lemma sendCommand_retries_after_wrong_command_APP:
  assumes "sendPacket c w0 dest cmd dat = Some (True, w0')"
    and "readPacket w0' Packet_default = Some (True, r1, w1)"
    and "command r1 \<noteq> cmd"
    and "sendPacket c w1 dest cmd dat = Some (True, w1')"
    and "readPacket w1' Packet_default = Some (True, r2, w2)"
    and "command r2 = cmd" and "source r2 = dest" and "destination r2 = comm_source c"
    and "comm_source c = APP"
  shows "sendCommand c w0 dest cmd dat reply = Some (True, data r2, w2)
    \<and> length (tx w2) = length (tx w0) + 2"
proof -
  have a1: "attempt c w0 dest cmd dat = Some (InvalidResponse, w1)"
  proof (rule attempt_InvalidResponse [OF assms(1,2)])
    show "command r1 \<noteq> cmd \<or> destination r1 \<noteq> APP \<or> source r1 \<noteq> dest"
      using assms(3) by simp
  qed
  have "destination r2 = APP"
    using assms(8,9) by simp
  with assms(4,5,6) have a2: "attempt c w1 dest cmd dat = Some (Success (data r2), w2)"
    using assms(7) by (rule attempt_Success)
  have "sendCommand c w0 dest cmd dat reply = sendCommand_loop c w0 dest cmd dat reply 0"
    by (simp add: sendCommand_def)
  also have "\<dots> = sendCommand_loop c w1 dest cmd dat reply 1"
    using sendCommand_loop_continue [OF _ a1, of 0 reply] by (simp add: RETRY_COUNT_def)
  also have "\<dots> = Some (True, data r2, w2)"
    using a2 by (intro sendCommand_loop_success) (simp_all add: RETRY_COUNT_def)
  finally have res: "sendCommand c w0 dest cmd dat reply = Some (True, data r2, w2)" .
  have "length (tx w1) = length (tx w0) + 1"
    using a1 by (rule attempt_tx)
  moreover have "length (tx w2) = length (tx w1) + 1"
    using a2 by (rule attempt_tx)
  ultimately show ?thesis
    using res by simp
qed

lemma sendCommand_retries_after_wrong_command_APP_example:
  "sendCommand Communicator_default
     \<lparr>clock = 0,
      rx = [(10, 0x3B), (11, 5), (12, 0x12), (13, 0x20), (14, 0x01), (15, 7), (16, 1),
            (17, 0xC0), (130, 0x3B), (131, 5), (132, 0x12), (133, 0x20), (134, 0xFE),
            (135, 7), (136, 1), (137, 0xC3)],
      tx = [], wr = []\<rparr> FOCUSER GET_VER [] []
   = Some (True, [7, 1],
       \<lparr>clock = 237, rx = [],
        tx = [[0x3B, 3, 0x20, 0x12, 0xFE, 0xCD], [0x3B, 3, 0x20, 0x12, 0xFE, 0xCD]],
        wr = []\<rparr>)"
proof -
  have s1: "sendPacket Communicator_default
     \<lparr>clock = 0,
      rx = [(10, 0x3B), (11, 5), (12, 0x12), (13, 0x20), (14, 0x01), (15, 7), (16, 1),
            (17, 0xC0), (130, 0x3B), (131, 5), (132, 0x12), (133, 0x20), (134, 0xFE),
            (135, 7), (136, 1), (137, 0xC3)],
      tx = [], wr = []\<rparr> FOCUSER GET_VER []
    = Some (True,
       \<lparr>clock = 0,
        rx = [(10, 0x3B), (11, 5), (12, 0x12), (13, 0x20), (14, 0x01), (15, 7), (16, 1),
              (17, 0xC0), (130, 0x3B), (131, 5), (132, 0x12), (133, 0x20), (134, 0xFE),
              (135, 7), (136, 1), (137, 0xC3)],
        tx = [[0x3B, 3, 0x20, 0x12, 0xFE, 0xCD]], wr = []\<rparr>)"
    by code_simp
  have r1: "readPacket
     \<lparr>clock = 0,
      rx = [(10, 0x3B), (11, 5), (12, 0x12), (13, 0x20), (14, 0x01), (15, 7), (16, 1),
            (17, 0xC0), (130, 0x3B), (131, 5), (132, 0x12), (133, 0x20), (134, 0xFE),
            (135, 7), (136, 1), (137, 0xC3)],
      tx = [[0x3B, 3, 0x20, 0x12, 0xFE, 0xCD]], wr = []\<rparr> Packet_default
    = Some (True,
       \<lparr>length_p = 5, source = FOCUSER, destination = APP, command = MC_GET_POSITION,
        data = [7, 1]\<rparr>,
       \<lparr>clock = 117,
        rx = [(130, 0x3B), (131, 5), (132, 0x12), (133, 0x20), (134, 0xFE), (135, 7),
              (136, 1), (137, 0xC3)],
        tx = [[0x3B, 3, 0x20, 0x12, 0xFE, 0xCD]], wr = []\<rparr>)"
    by code_simp
  have s2: "sendPacket Communicator_default
     \<lparr>clock = 117,
      rx = [(130, 0x3B), (131, 5), (132, 0x12), (133, 0x20), (134, 0xFE), (135, 7),
            (136, 1), (137, 0xC3)],
      tx = [[0x3B, 3, 0x20, 0x12, 0xFE, 0xCD]], wr = []\<rparr> FOCUSER GET_VER []
    = Some (True,
       \<lparr>clock = 117,
        rx = [(130, 0x3B), (131, 5), (132, 0x12), (133, 0x20), (134, 0xFE), (135, 7),
              (136, 1), (137, 0xC3)],
        tx = [[0x3B, 3, 0x20, 0x12, 0xFE, 0xCD], [0x3B, 3, 0x20, 0x12, 0xFE, 0xCD]],
        wr = []\<rparr>)"
    by code_simp
  have r2: "readPacket
     \<lparr>clock = 117,
      rx = [(130, 0x3B), (131, 5), (132, 0x12), (133, 0x20), (134, 0xFE), (135, 7),
            (136, 1), (137, 0xC3)],
      tx = [[0x3B, 3, 0x20, 0x12, 0xFE, 0xCD], [0x3B, 3, 0x20, 0x12, 0xFE, 0xCD]],
      wr = []\<rparr> Packet_default
    = Some (True,
       \<lparr>length_p = 5, source = FOCUSER, destination = APP, command = GET_VER,
        data = [7, 1]\<rparr>,
       \<lparr>clock = 237, rx = [],
        tx = [[0x3B, 3, 0x20, 0x12, 0xFE, 0xCD], [0x3B, 3, 0x20, 0x12, 0xFE, 0xCD]],
        wr = []\<rparr>)"
    by code_simp
  have ne: "command \<lparr>length_p = 5, source = FOCUSER, destination = APP,
      command = MC_GET_POSITION, data = [7, 1]\<rparr> \<noteq> GET_VER"
    by (simp add: MC_GET_POSITION_def GET_VER_def)
  show ?thesis
    using sendCommand_retries_after_wrong_command_APP [OF s1 r1 ne s2 r2, of "[]"]
    by (simp add: Communicator_default_def)
qed

text \<open>
  A communicator whose source is not \<open>APP\<close> refuses every response that is addressed to
  it: the destination is compared with \<open>Target::APP\<close>, not with the source of the
  communicator.
\<close>

lemma attempt_rejects_own_address:
  assumes "comm_source c \<noteq> APP"
    and "sendPacket c w dest cmd dat = Some (True, w')"
    and "readPacket w' Packet_default = Some (True, r, w'')"
    and "destination r = comm_source c"
  shows "attempt c w dest cmd dat = Some (InvalidResponse, w'')"
proof (rule attempt_InvalidResponse [OF assms(2,3)])
  show "command r \<noteq> cmd \<or> destination r \<noteq> APP \<or> source r \<noteq> dest"
    using assms(1,4) by simp
qed

text \<open>
  Claim C6 fails for a communicator constructed with a source other than \<open>APP\<close>, by the
  defect shown for claim C2. The communicator has the source \<open>HC\<close> and sends \<open>GET_VER\<close>
  to \<open>FOCUSER\<close>. The first response is a well-formed frame from \<open>FOCUSER\<close> to \<open>HC\<close>
  with the command \<open>MC_GET_POSITION\<close>; the second is the correct response, from
  \<open>FOCUSER\<close> to \<open>HC\<close> with the command \<open>GET_VER\<close> and the data \<open>07 01\<close>, which
  \<open>readPacket\<close> reads in the second attempt. \<open>sendCommand\<close> refuses it, makes a third
  attempt and returns \<open>false\<close>.
\<close>

theorem sendCommand_wrong_command_then_own_address:
  "readPacket
     \<lparr>clock = 117,
      rx = [(130, 0x3B), (131, 5), (132, 0x12), (133, 0x04), (134, 0xFE), (135, 7),
            (136, 1), (137, 0xDF)],
      tx = [[0x3B, 3, 0x04, 0x12, 0xFE, 0xE9], [0x3B, 3, 0x04, 0x12, 0xFE, 0xE9]],
      wr = []\<rparr> Packet_default
   = Some (True,
       \<lparr>length_p = 5, source = FOCUSER, destination = HC, command = GET_VER,
        data = [7, 1]\<rparr>,
       \<lparr>clock = 237, rx = [],
        tx = [[0x3B, 3, 0x04, 0x12, 0xFE, 0xE9], [0x3B, 3, 0x04, 0x12, 0xFE, 0xE9]],
        wr = []\<rparr>)
   \<and> sendCommand (Communicator_source HC)
     \<lparr>clock = 0,
      rx = [(10, 0x3B), (11, 5), (12, 0x12), (13, 0x04), (14, 0x01), (15, 7), (16, 1),
            (17, 0xDC), (130, 0x3B), (131, 5), (132, 0x12), (133, 0x04), (134, 0xFE),
            (135, 7), (136, 1), (137, 0xDF)],
      tx = [], wr = []\<rparr> FOCUSER GET_VER [] []
   = Some (False, [],
       \<lparr>clock = 337, rx = [],
        tx = [[0x3B, 3, 0x04, 0x12, 0xFE, 0xE9], [0x3B, 3, 0x04, 0x12, 0xFE, 0xE9],
              [0x3B, 3, 0x04, 0x12, 0xFE, 0xE9]],
        wr = []\<rparr>)"
  by code_simp

text \<open>
  Claim C2 fails for a communicator constructed with a source other than \<open>APP\<close>: the
  request is sent with that source, but the destination of the response is compared with
  the constant \<open>Target::APP\<close>. A communicator with the source \<open>HC\<close> accepts a response
  addressed to \<open>APP\<close>, and rejects in all three attempts the response addressed to
  \<open>HC\<close>.
\<close>

theorem sendCommand_checks_destination_against_APP:
  "sendCommand (Communicator_source HC)
     \<lparr>clock = 0,
      rx = [(10, 0x3B), (11, 5), (12, 0x12), (13, 0x20), (14, 0xFE), (15, 7), (16, 1),
            (17, 0xC3)],
      tx = [], wr = []\<rparr> FOCUSER GET_VER [] []
   = Some (True, [7, 1],
       \<lparr>clock = 117, rx = [], tx = [[0x3B, 3, 0x04, 0x12, 0xFE, 0xE9]], wr = []\<rparr>)
   \<and> sendCommand (Communicator_source HC)
     \<lparr>clock = 0,
      rx = [(10, 0x3B), (11, 5), (12, 0x12), (13, 0x04), (14, 0xFE), (15, 7), (16, 1),
            (17, 0xDF),
            (130, 0x3B), (131, 5), (132, 0x12), (133, 0x04), (134, 0xFE), (135, 7), (136, 1),
            (137, 0xDF),
            (250, 0x3B), (251, 5), (252, 0x12), (253, 0x04), (254, 0xFE), (255, 7), (256, 1),
            (257, 0xDF)],
      tx = [], wr = []\<rparr> FOCUSER GET_VER [] []
   = Some (False, [],
       \<lparr>clock = 357, rx = [],
        tx = [[0x3B, 3, 0x04, 0x12, 0xFE, 0xE9], [0x3B, 3, 0x04, 0x12, 0xFE, 0xE9],
              [0x3B, 3, 0x04, 0x12, 0xFE, 0xE9]],
        wr = []\<rparr>)"
  by code_simp

end
